theory Spec2Isabelle
  imports Main "HOL-Library.Sublist"
begin

section \<open>The chat front end (src/frontend/streamlit_app.py)\<close>

subsection \<open>Python strings and JSON values\<close>

text \<open>
  A Python \<open>str\<close> is modelled as a \<open>string\<close>, one \<open>char\<close> per code point below 256.
  \<open>py_isspace\<close> is \<open>str.isspace\<close> on one such character: the ASCII controls 9 to 13 and
  28 to 31, the space, NEL (133) and the no-break space (160). \<open>strip\<close> is \<open>str.strip()\<close>
  and \<open>truthy\<close> is the truth value Python gives a string.
\<close>

definition py_isspace :: "char \<Rightarrow> bool" where
  "py_isspace c = ((of_char c :: nat) \<in> {9, 10, 11, 12, 13, 28, 29, 30, 31, 32, 133, 160})"

definition strip :: "string \<Rightarrow> string" where
  "strip s = rev (dropWhile py_isspace (rev (dropWhile py_isspace s)))"

definition truthy :: "string \<Rightarrow> bool" where
  "truthy s = (s \<noteq> [])"

text \<open>
  What \<open>response.json()\<close> can return. An object is the list of its items (the first
  binding of a key is the one looked up). Numbers are integers here; a float behaves as
  an integer does in every operation below.
\<close>

datatype json =
    JNull
  | JBool bool
  | JNum int
  | JStr string
  | JList "json list"
  | JObj "(string \<times> json) list"

datatype py_exn = TypeError | AttributeError

text \<open>\<open>field in data\<close>: key membership in a dict, element membership in a list, substring
  test in a string, \<open>TypeError\<close> for a value that is not a container.\<close>

fun py_in :: "string \<Rightarrow> json \<Rightarrow> py_exn + bool" where
  "py_in field (JObj items) = Inr (field \<in> set (map fst items))"
| "py_in field (JList xs) = Inr (JStr field \<in> set xs)"
| "py_in field (JStr s) = Inr (sublist field s)"
| "py_in field JNull = Inl TypeError"
| "py_in field (JBool b) = Inl TypeError"
| "py_in field (JNum n) = Inl TypeError"

text \<open>\<open>data.get(field, '')\<close>: only a dict has the method.\<close>

fun py_get :: "json \<Rightarrow> string \<Rightarrow> py_exn + json" where
  "py_get (JObj items) field =
     Inr (case map_of items field of None \<Rightarrow> JStr [] | Some v \<Rightarrow> v)"
| "py_get (JList xs) field = Inl AttributeError"
| "py_get (JStr s) field = Inl AttributeError"
| "py_get JNull field = Inl AttributeError"
| "py_get (JBool b) field = Inl AttributeError"
| "py_get (JNum n) field = Inl AttributeError"

subsection \<open>Errors, HTTP and the application state\<close>

datatype err_class = APIError | ValidationError | ConfigurationError

text \<open>An \<open>AppError\<close>: its class, message and error code (the \<open>details\<close> dictionary is only
  displayed, never read back, and is left out).\<close>

record app_error =
  err_class :: err_class
  message :: string
  error_code :: string

record http_request =
  url :: string
  query_field :: string
  pdf_uuid_field :: "string option"

text \<open>
  What \<open>self.session.post(url, json=payload, timeout=30)\<close> does: it raises
  \<open>requests.exceptions.Timeout\<close>, raises \<open>requests.exceptions.ConnectionError\<close>, raises
  some other exception (with its \<open>str\<close>), or returns a response with a status code and a
  body; the body is \<open>None\<close> when \<open>response.json()\<close> raises \<open>JSONDecodeError\<close>.
  The network is a function from the request to the outcome.
\<close>

datatype http_outcome =
    Timeout
  | ConnectionError
  | OtherException string
  | Response int "json option"

type_synonym network = "http_request \<Rightarrow> http_outcome"

record chat_message =
  role :: string
  content :: string

record logged_error =
  logged :: app_error
  log_context :: string
  user_message :: string

text \<open>
  The state the front end reads and writes: the fields of \<open>st.session_state\<close>, the
  requests sent through \<open>self.session\<close>, what \<open>ErrorHandler.log_error\<close> has recorded and
  the warnings shown with \<open>st.warning\<close>. Calls to the module's \<open>logger\<close> only write the
  log file and are not part of the state.
\<close>

record app_state =
  messages :: "chat_message list"
  hybrid_responses :: "json list"
  generic_responses :: "json list"
  error_count :: int
  current_pdf_uuid :: "string option"
  http_log :: "http_request list"
  error_log :: "logged_error list"
  warnings :: "string list"

record api_client =
  endpoint :: string
  chatbot_backend_url :: "string option"

definition log_error :: "app_error \<Rightarrow> string \<Rightarrow> string \<Rightarrow> app_state \<Rightarrow> app_state" where
  "log_error e ctx msg st =
     st\<lparr>error_log := error_log st @ [\<lparr>logged = e, log_context = ctx, user_message = msg\<rparr>]\<rparr>"

definition post :: "network \<Rightarrow> http_request \<Rightarrow> app_state \<Rightarrow> http_outcome \<times> app_state" where
  "post net rq st = (net rq, st\<lparr>http_log := http_log st @ [rq]\<rparr>)"

subsection \<open>Decimal rendering of a status code\<close>

definition digit_char :: "nat \<Rightarrow> char" where
  "digit_char d = char_of (48 + d)"

function str_nat :: "nat \<Rightarrow> string" where
  "str_nat n = (if n < 10 then [digit_char n] else str_nat (n div 10) @ [digit_char (n mod 10)])"
  by pat_completeness auto
termination
  by (relation "measure id") auto

definition str_int :: "int \<Rightarrow> string" where
  "str_int i = (if i < 0 then CHR ''-'' # str_nat (nat (- i)) else str_nat (nat i))"

subsection \<open>\<open>APIClient.send_query\<close>\<close>

text \<open>
  The result is \<open>Inl e\<close> when the call raises \<open>e\<close> to its caller, \<open>Inr None\<close> when it
  returns \<open>None\<close> and \<open>Inr (Some a)\<close> when it returns \<open>ChatResponse(answer=a)\<close>.
\<close>

definition api_error :: "string \<Rightarrow> string \<Rightarrow> app_error" where
  "api_error msg code = \<lparr>err_class = APIError, message = msg, error_code = code\<rparr>"

definition query_is_blank :: "string \<Rightarrow> bool" where
  "query_is_blank q = (\<not> truthy q \<or> \<not> truthy (strip q))"

definition unexpected_error :: "string \<Rightarrow> app_state \<Rightarrow> (app_error + json option) \<times> app_state" where
  "unexpected_error s st =
     (Inr None,
      log_error (api_error (''Unexpected error during query: '' @ s) ''UNEXPECTED_ERROR'')
        ''API Query Request'' ''An unexpected error occurred. Please try again.'' st)"

text \<open>The interpreter's text for the two exceptions, abbreviated.\<close>

definition py_exn_str :: "py_exn \<Rightarrow> string" where
  "py_exn_str e = (case e of
       TypeError \<Rightarrow> ''argument of this type is not iterable''
     | AttributeError \<Rightarrow> ''object has no attribute get'')"

definition parse_answer :: "json option \<Rightarrow> app_state \<Rightarrow> (app_error + json option) \<times> app_state" where
  "parse_answer body st =
     (case body of
        None \<Rightarrow> (Inl (api_error ''Invalid JSON response from server'' ''INVALID_JSON''), st)
      | Some data \<Rightarrow>
         (case py_in ''answer'' data of
            Inl e \<Rightarrow> unexpected_error (py_exn_str e) st
          | Inr False \<Rightarrow>
              (Inl (api_error (''Missing required fields in response: ['' @ [char_of (39::nat)]
                      @ ''answer'' @ [char_of (39::nat)] @ '']'') ''MISSING_RESPONSE_FIELDS''), st)
          | Inr True \<Rightarrow>
             (case py_get data ''answer'' of
                Inl e \<Rightarrow> unexpected_error (py_exn_str e) st
              | Inr a \<Rightarrow> (Inr (Some a), st))))"

definition answer_request :: "api_client \<Rightarrow> string \<Rightarrow> string option \<Rightarrow> http_request" where
  "answer_request self query pdf_uuid =
     \<lparr>url = endpoint self @ ''/answer'', query_field = strip query,
      pdf_uuid_field = (case pdf_uuid of None \<Rightarrow> None
                        | Some u \<Rightarrow> if truthy u then Some u else None)\<rparr>"

definition send_query ::
  "api_client \<Rightarrow> network \<Rightarrow> string \<Rightarrow> string option \<Rightarrow> app_state
     \<Rightarrow> (app_error + json option) \<times> app_state" where
  "send_query self net query pdf_uuid st =
     (if query_is_blank query then
        (Inr None,
         log_error \<lparr>err_class = ValidationError, message = ''Query cannot be empty'',
                    error_code = ''EMPTY_QUERY''\<rparr>
           ''Query Validation'' ''Please enter a valid question'' st)
      else
        let (outcome, st1) = post net (answer_request self query pdf_uuid) st
        in case outcome of
             Response status body \<Rightarrow>
               if status = 404 then
                 (Inl (api_error ''Answer endpoint not found'' ''ENDPOINT_NOT_FOUND''), st1)
               else if status = 500 then
                 (Inl (api_error ''Server error occurred'' ''SERVER_ERROR''), st1)
               else if status \<noteq> 200 then
                 (Inl (api_error (''Unexpected status code: '' @ str_int status)
                         ''UNEXPECTED_STATUS''), st1)
               else parse_answer body st1
           | Timeout \<Rightarrow>
               (Inr None,
                log_error (api_error ''Request timed out'' ''TIMEOUT'') ''API Query Request''
                  ''The request took too long. Please try again.'' st1)
           | ConnectionError \<Rightarrow>
               (Inr None,
                log_error (api_error ''Cannot connect to API server'' ''CONNECTION_ERROR'')
                  ''API Query Request''
                  ''Cannot connect to the server. Please check your internet connection.'' st1)
           | OtherException s \<Rightarrow> unexpected_error s st1)"

subsection \<open>\<open>APIClient.send_generic_rag_query\<close>\<close>

text \<open>This call never raises: it returns \<open>None\<close> or \<open>GenericRAGResponse(response=r)\<close>.\<close>

definition chat_request :: "string \<Rightarrow> string \<Rightarrow> http_request" where
  "chat_request base query =
     \<lparr>url = base @ ''/chat'', query_field = strip query, pdf_uuid_field = None\<rparr>"

definition parse_generic :: "json option \<Rightarrow> json option" where
  "parse_generic body =
     (case body of
        None \<Rightarrow> None
      | Some data \<Rightarrow>
         (case py_in ''response'' data of
            Inl e \<Rightarrow> None
          | Inr False \<Rightarrow> None
          | Inr True \<Rightarrow> (case py_get data ''response'' of Inl e \<Rightarrow> None | Inr r \<Rightarrow> Some r)))"

definition send_generic_rag_query ::
  "api_client \<Rightarrow> network \<Rightarrow> string \<Rightarrow> app_state \<Rightarrow> json option \<times> app_state" where
  "send_generic_rag_query self net query st =
     (case chatbot_backend_url self of
        None \<Rightarrow> (None, st)
      | Some base \<Rightarrow>
          if \<not> truthy base then (None, st)
          else if query_is_blank query then (None, st)
          else
            let (outcome, st1) = post net (chat_request base query) st
            in (case outcome of
                  Response status body \<Rightarrow>
                    if status \<noteq> 200 then (None, st1) else (parse_generic body, st1)
                | Timeout \<Rightarrow> (None, st1)
                | ConnectionError \<Rightarrow> (None, st1)
                | OtherException s \<Rightarrow> (None, st1)))"

subsection \<open>\<open>ChatUI._handle_user_input\<close> and \<open>ChatUI.display_chat_history\<close>\<close>

definition hybrid_failure :: json where
  "hybrid_failure = JStr ''Error: Unable to get response from HybridRAG''"

definition generic_failure :: json where
  "generic_failure = JStr ''Error: Unable to get response from GenericRAG''"

definition dual_marker :: chat_message where
  "dual_marker = \<lparr>role = ''assistant'', content = ''dual_response''\<rparr>"

definition handle_user_input :: "api_client \<Rightarrow> network \<Rightarrow> string \<Rightarrow> app_state \<Rightarrow> app_state" where
  "handle_user_input self net user_input st =
     (if query_is_blank user_input then
        st\<lparr>warnings := warnings st @ [''Please enter a valid question.'']\<rparr>
      else
        let st1 = st\<lparr>messages := messages st @ [\<lparr>role = ''user'', content = strip user_input\<rparr>]\<rparr>;
            (hybrid_result, st2) = send_query self net (strip user_input) (current_pdf_uuid st1) st1
        in case hybrid_result of
             Inl e \<Rightarrow> log_error e ''User Input Handling'' ''Error processing your message'' st2
           | Inr hybrid_response \<Rightarrow>
               let (generic_response, st3) = send_generic_rag_query self net (strip user_input) st2;
                   hybrid_answer = (case hybrid_response of Some a \<Rightarrow> a | None \<Rightarrow> hybrid_failure);
                   generic_answer = (case generic_response of Some r \<Rightarrow> r | None \<Rightarrow> generic_failure)
               in st3\<lparr>hybrid_responses := hybrid_responses st3 @ [hybrid_answer],
                       generic_responses := generic_responses st3 @ [generic_answer],
                       messages := messages st3 @ [dual_marker],
                       error_count := 0\<rparr>)"

text \<open>
  What \<open>display_chat_history\<close> writes, message by message: a user message, one assistant
  message in the dual layout with the entries of \<open>generic_responses\<close> and
  \<open>hybrid_responses\<close> at the running count (nothing where the list is too short), or a
  single assistant message. A message with another role writes nothing.
\<close>

datatype rendered =
    UserBubble string
  | DualBubble "json option" "json option"
  | SingleBubble string

definition nth_opt :: "'a list \<Rightarrow> nat \<Rightarrow> 'a option" where
  "nth_opt xs i = (if i < length xs then Some (xs ! i) else None)"

fun display_from :: "nat \<Rightarrow> json list \<Rightarrow> json list \<Rightarrow> chat_message list \<Rightarrow> rendered list" where
  "display_from k gen hyb [] = []"
| "display_from k gen hyb (m # ms) =
     (if role m = ''user'' then UserBubble (content m) # display_from k gen hyb ms
      else if role m = ''assistant'' then
        (if content m = ''dual_response''
         then DualBubble (nth_opt gen k) (nth_opt hyb k) # display_from (Suc k) gen hyb ms
         else SingleBubble (content m) # display_from k gen hyb ms)
      else display_from k gen hyb ms)"

definition display_chat_history :: "app_state \<Rightarrow> rendered list" where
  "display_chat_history st =
     display_from 0 (generic_responses st) (hybrid_responses st) (messages st)"

definition is_dual :: "chat_message \<Rightarrow> bool" where
  "is_dual m = (role m = ''assistant'' \<and> content m = ''dual_response'')"

definition dual_count :: "app_state \<Rightarrow> nat" where
  "dual_count st = length (filter is_dual (messages st))"

text \<open>The alignment of the two response lists with the dual-response markers.\<close>

definition aligned :: "app_state \<Rightarrow> bool" where
  "aligned st =
     (length (hybrid_responses st) = length (generic_responses st)
      \<and> dual_count st = length (hybrid_responses st))"

text \<open>The dual-layout entries of what \<open>display_chat_history\<close> writes.\<close>

fun is_dual_bubble :: "rendered \<Rightarrow> bool" where
  "is_dual_bubble (DualBubble g h) = True"
| "is_dual_bubble (UserBubble s) = False"
| "is_dual_bubble (SingleBubble s) = False"

subsection \<open>Concrete clients, states and networks\<close>

definition client0 :: api_client where
  "client0 = \<lparr>endpoint = ''http://api'', chatbot_backend_url = Some ''http://rag''\<rparr>"

definition state0 :: app_state where
  "state0 = \<lparr>messages = [], hybrid_responses = [], generic_responses = [], error_count = 0,
     current_pdf_uuid = Some ''39089c73'', http_log = [], error_log = [], warnings = []\<rparr>"

definition net_ok :: network where
  "net_ok rq = Response 200 (Some (JObj [(''answer'', JStr ''42''), (''response'', JStr ''43'')]))"

definition net_server_error :: network where
  "net_server_error rq = Response 500 None"

definition net_timeout :: network where
  "net_timeout rq = Timeout"

section \<open>The chunker and the table schema engine\<close>

text \<open>
  The ingestion pipeline lives in \<open>src/backend/utils/pdf_processor.py\<close>, which the test
  \<open>tests/test_pdf_prcoessor.py\<close> imports and which is not among the sources. The
  definitions of this section follow the specification's sections 3, 4.3 and 4.4.
\<close>

subsection \<open>Blocks\<close>

text \<open>Modelled from the spec: the kind of a Block (section 3), produced by the missing
  Sectionizer.\<close>

datatype block_kind = Heading | Paragraph | Bullet

text \<open>Modelled from the spec: the heading a Block refers to, with the page the heading
  originated on (the missing Sectionizer stamps it).\<close>

record heading_ref =
  heading_text :: string
  heading_page :: nat

text \<open>Modelled from the spec: a Block of section 3 (kind, raw text, page number, owning
  heading or none); the class is in the missing \<open>pdf_processor.py\<close>.\<close>

record block =
  kind :: block_kind
  raw_text :: string
  page_number :: nat
  owning_heading :: "heading_ref option"

subsection \<open>The chunker (section 4.3)\<close>

text \<open>Modelled from the spec: the line break the missing chunker joins Blocks with.\<close>

definition newline :: string where
  "newline = [char_of (10::nat)]"

text \<open>Modelled from the spec: what the missing chunker puts between two Blocks of a
  buffer: a single newline between consecutive bullets, a single blank line otherwise.\<close>

definition separator :: "block \<Rightarrow> block \<Rightarrow> string" where
  "separator a b = (if kind a = Bullet \<and> kind b = Bullet then newline else newline @ newline)"

text \<open>Modelled from the spec: the text of a buffer of the missing chunker, its Blocks'
  texts in order with the separators between them.\<close>

fun join_blocks :: "block list \<Rightarrow> string" where
  "join_blocks [] = []"
| "join_blocks [b] = raw_text b"
| "join_blocks (a # b # bs) = raw_text a @ separator a b @ join_blocks (b # bs)"

text \<open>Modelled from the spec: closing the running buffer of the missing chunker; an empty
  buffer gives no chunk.\<close>

fun close_chunk :: "block list \<Rightarrow> block list list" where
  "close_chunk [] = []"
| "close_chunk buffer = [buffer]"

text \<open>Modelled from the spec: the buffer policy of the missing chunker. A Block is
  appended to the running buffer until adding the next Block would exceed the maximum
  chunk size; then the current chunk is closed and a new one starts with the pending
  Block. A Block is never split, so a Block that alone exceeds the maximum is a chunk of
  its own. The size measure (characters or words) is the parameter \<open>size_of\<close>.\<close>

fun fill_chunks :: "(string \<Rightarrow> nat) \<Rightarrow> nat \<Rightarrow> block list \<Rightarrow> block list \<Rightarrow> block list list" where
  "fill_chunks size_of max_size buffer [] = close_chunk buffer"
| "fill_chunks size_of max_size buffer (b # bs) =
     (if buffer \<noteq> [] \<and> max_size < size_of (join_blocks (buffer @ [b]))
      then buffer # fill_chunks size_of max_size [b] bs
      else fill_chunks size_of max_size (buffer @ [b]) bs)"

text \<open>Modelled from the spec: the Blocks of each chunk the missing chunker produces,
  starting from an empty buffer.\<close>

definition group_blocks :: "(string \<Rightarrow> nat) \<Rightarrow> nat \<Rightarrow> block list \<Rightarrow> block list list" where
  "group_blocks size_of max_size blocks = fill_chunks size_of max_size [] blocks"

text \<open>Modelled from the spec: the dash of the heading marker, U+2014, as its three UTF-8
  bytes (the missing chunker writes it; the test asserts it).\<close>

definition em_dash :: string where
  "em_dash = [char_of (226::nat), char_of (128::nat), char_of (148::nat)]"

text \<open>Modelled from the spec: the marker \<open>"<HEADING> - (Page <N>)"\<close> of the missing
  chunker, with the dash above and the heading's originating page.\<close>

definition marker :: "heading_ref \<Rightarrow> string" where
  "marker h = heading_text h @ '' '' @ em_dash @ '' (Page '' @ str_nat (heading_page h) @ '')''"

text \<open>Modelled from the spec: whether a heading is already rendered in the visible text
  of a prior chunk (the test of the missing chunker before it writes a marker).\<close>

definition heading_rendered :: "string list \<Rightarrow> heading_ref \<Rightarrow> bool" where
  "heading_rendered prior h = list_ex (sublist (heading_text h)) prior"

text \<open>Modelled from the spec: the heading the missing chunker marks a chunk with: the
  owning heading of the chunk's first Block, when no prior chunk renders it.\<close>

definition new_heading :: "string list \<Rightarrow> block list \<Rightarrow> heading_ref option" where
  "new_heading prior members =
     (case members of
        [] \<Rightarrow> None
      | b # bs \<Rightarrow>
         (case owning_heading b of
            None \<Rightarrow> None
          | Some h \<Rightarrow> if heading_rendered prior h then None else Some h))"

text \<open>Modelled from the spec: the prefix of a chunk of the missing chunker, the marker
  followed by a blank line, or nothing.\<close>

definition chunk_prefix :: "string list \<Rightarrow> block list \<Rightarrow> string" where
  "chunk_prefix prior members =
     (case new_heading prior members of None \<Rightarrow> [] | Some h \<Rightarrow> marker h @ newline @ newline)"

text \<open>Modelled from the spec: the text of a chunk of the missing chunker, its prefix
  and its Blocks.\<close>

definition chunk_text :: "string list \<Rightarrow> block list \<Rightarrow> string" where
  "chunk_text prior members = chunk_prefix prior members @ join_blocks members"

text \<open>Modelled from the spec: the missing chunker writing the chunks in order, each
  with the texts of the chunks before it.\<close>

fun render_chunks :: "string list \<Rightarrow> block list list \<Rightarrow> string list" where
  "render_chunks prior [] = []"
| "render_chunks prior (g # gs) =
     chunk_text prior g # render_chunks (prior @ [chunk_text prior g]) gs"

text \<open>Modelled from the spec: the Chunker of section 4.3, the core of the missing
  \<open>optimized_extract_and_store\<close>: from the ordered Blocks of a Document to the ordered
  chunk texts.\<close>

definition chunker :: "(string \<Rightarrow> nat) \<Rightarrow> nat \<Rightarrow> block list \<Rightarrow> string list" where
  "chunker size_of max_size blocks = render_chunks [] (group_blocks size_of max_size blocks)"

subsection \<open>The table schema engine (section 4.4)\<close>

text \<open>Modelled from the spec: the column types the missing TableSchemaEngine infers.\<close>

datatype column_type = Numeric | Date | Text

text \<open>Modelled from the spec: a TableSchema of section 3 (the class is in the missing
  \<open>pdf_processor.py\<close>): a schema identifier and the ordered columns with their types.\<close>

record table_schema =
  schema_id :: nat
  column_spec :: "(string \<times> column_type) list"

text \<open>Modelled from the spec: the schema catalogue of the missing engine, the schemas
  seen so far in the order they were registered.\<close>

type_synonym schema_catalog = "table_schema list"

text \<open>Modelled from the spec: the ordered column names of an inferred table, as the
  missing engine compares them.\<close>

definition column_names :: "(string \<times> column_type) list \<Rightarrow> string list" where
  "column_names cols = map fst cols"

text \<open>Modelled from the spec: the lookup of the missing engine, the first schema of the
  catalogue whose ordered column names are equal to the table's.\<close>

definition find_schema :: "schema_catalog \<Rightarrow> string list \<Rightarrow> table_schema option" where
  "find_schema catalog names = find (\<lambda>s. column_names (column_spec s) = names) catalog"

text \<open>Modelled from the spec: the new identifier the missing engine assigns; the spec
  only asks for a new one, and this is the successor of the largest one in use.\<close>

definition new_identifier :: "schema_catalog \<Rightarrow> nat" where
  "new_identifier catalog = Suc (fold max (map schema_id catalog) 0)"

text \<open>Modelled from the spec: step 2 of section 4.4 of the missing engine: reuse the
  identifier of a schema with the same ordered column names, otherwise register a new
  schema under a new identifier.\<close>

definition resolve_schema ::
  "schema_catalog \<Rightarrow> (string \<times> column_type) list \<Rightarrow> nat \<times> schema_catalog" where
  "resolve_schema catalog cols =
     (case find_schema catalog (column_names cols) of
        Some s \<Rightarrow> (schema_id s, catalog)
      | None \<Rightarrow>
          (new_identifier catalog,
           catalog @ [\<lparr>schema_id = new_identifier catalog, column_spec = cols\<rparr>]))"

text \<open>Modelled from the spec: the missing engine resolving the tables of one pipeline
  run in order, the catalogue passed from one table to the next.\<close>

fun resolve_tables ::
  "schema_catalog \<Rightarrow> (string \<times> column_type) list list \<Rightarrow> nat list \<times> schema_catalog" where
  "resolve_tables catalog [] = ([], catalog)"
| "resolve_tables catalog (cols # rest) =
     (let (i, catalog1) = resolve_schema catalog cols;
          (is, catalog2) = resolve_tables catalog1 rest
      in (i # is, catalog2))"

text \<open>Modelled from the spec: the catalogue of the missing engine when the run reaches
  its k-th table, the previously seen schemas.\<close>

definition catalog_before ::
  "schema_catalog \<Rightarrow> (string \<times> column_type) list list \<Rightarrow> nat \<Rightarrow> schema_catalog" where
  "catalog_before catalog tables k = snd (resolve_tables catalog (take k tables))"

subsection \<open>Concrete blocks and tables\<close>

definition intro_heading :: heading_ref where
  "intro_heading = \<lparr>heading_text = ''INTRO'', heading_page = 1\<rparr>"

definition sample_blocks :: "block list" where
  "sample_blocks =
     [\<lparr>kind = Heading, raw_text = ''INTRO'', page_number = 1, owning_heading = Some intro_heading\<rparr>,
      \<lparr>kind = Paragraph, raw_text = ''One two. Three.'', page_number = 1, owning_heading = Some intro_heading\<rparr>,
      \<lparr>kind = Bullet, raw_text = ''- a very long bullet item'', page_number = 1, owning_heading = Some intro_heading\<rparr>,
      \<lparr>kind = Bullet, raw_text = ''- b'', page_number = 2, owning_heading = Some intro_heading\<rparr>]"

definition sample_catalog :: schema_catalog where
  "sample_catalog = [\<lparr>schema_id = 7, column_spec = [(''name'', Text), (''goals'', Numeric)]\<rparr>]"

definition sample_tables :: "(string \<times> column_type) list list" where
  "sample_tables =
     [[(''year'', Date), (''host'', Text)],
      [(''name'', Text), (''goals'', Text)],
      [(''year'', Numeric), (''host'', Text)]]"

section \<open>Properties of the front end\<close>

subsection \<open>Blank queries\<close>

lemma all_dropWhile_iff: "(\<forall>x\<in>set (dropWhile P s). P x) \<longleftrightarrow> (\<forall>x\<in>set s. P x)"
proof
  assume a: "\<forall>x\<in>set (dropWhile P s). P x"
  have "dropWhile P s = []"
  proof (rule ccontr)
    assume n: "dropWhile P s \<noteq> []"
    then have "\<not> P (hd (dropWhile P s))" by (rule hd_dropWhile)
    moreover from n have "hd (dropWhile P s) \<in> set (dropWhile P s)" by simp
    ultimately show False using a by blast
  qed
  then show "\<forall>x\<in>set s. P x" by simp
next
  assume "\<forall>x\<in>set s. P x"
  then show "\<forall>x\<in>set (dropWhile P s). P x" by (auto dest: set_dropWhileD)
qed

lemma strip_blank_iff: "strip s = [] \<longleftrightarrow> (\<forall>c\<in>set s. py_isspace c)"
  by (simp add: strip_def all_dropWhile_iff)

lemma query_is_blank_iff: "query_is_blank q \<longleftrightarrow> (\<forall>c\<in>set q. py_isspace c)"
  by (auto simp: query_is_blank_def truthy_def strip_blank_iff)

text \<open>
  Claim C8. For every query that is empty or consists only of whitespace,
  \<open>send_query\<close> records a \<open>ValidationError\<close> with \<open>ErrorHandler.log_error\<close> and
  returns \<open>None\<close>; it sends no HTTP request and raises nothing. On the same query
  \<open>send_generic_rag_query\<close> returns \<open>None\<close> and leaves the state as it was.
\<close>

theorem send_query_blank:
  assumes "q = [] \<or> (\<forall>c\<in>set q. py_isspace c)"
  shows "send_query self net q uuid st =
           (Inr None,
            st\<lparr>error_log := error_log st @
                 [\<lparr>logged = \<lparr>err_class = ValidationError, message = ''Query cannot be empty'',
                              error_code = ''EMPTY_QUERY''\<rparr>,
                   log_context = ''Query Validation'',
                   user_message = ''Please enter a valid question''\<rparr>]\<rparr>)
         \<and> http_log (snd (send_query self net q uuid st)) = http_log st
         \<and> send_generic_rag_query self net q st = (None, st)"
proof -
  from assms have b: "query_is_blank q" by (auto simp: query_is_blank_iff)
  then show ?thesis
    by (simp add: send_query_def send_generic_rag_query_def log_error_def split: option.splits)
qed

theorem send_query_blank_witness:
  "fst (send_query client0 net_ok ''  '' None state0) = Inr None
   \<and> http_log (snd (send_query client0 net_ok ''  '' None state0)) = []
   \<and> send_generic_rag_query client0 net_ok ''  '' state0 = (None, state0)"
proof -
  have h: "''  '' = [] \<or> (\<forall>c\<in>set ''  ''. py_isspace c)" by (simp add: py_isspace_def)
  show ?thesis
    using send_query_blank [OF h, of client0 net_ok None state0]
    by (simp add: state0_def)
qed

subsection \<open>Failures of the answer request\<close>

lemma not_blank_hi: "\<not> query_is_blank ''hi''"
  by (simp add: query_is_blank_def truthy_def strip_def py_isspace_def)

lemma strip_hi: "strip ''hi'' = ''hi''"
  by (simp add: strip_def py_isspace_def)

text \<open>
  Claim C9. For a query that passes validation, \<open>send_query\<close> raises an \<open>APIError\<close>
  to its caller whenever the server answers with a status code other than 200, and
  returns \<open>None\<close>, after recording an \<open>APIError\<close> with \<open>ErrorHandler.log_error\<close>,
  whenever the request times out or the connection fails.
\<close>

theorem send_query_failures:
  assumes "\<not> query_is_blank q"
  shows "(net (answer_request self q uuid) = Response status body \<and> status \<noteq> 200 \<longrightarrow>
            (\<exists>e. fst (send_query self net q uuid st) = Inl e \<and> err_class e = APIError))
       \<and> (net (answer_request self q uuid) \<in> {Timeout, ConnectionError} \<longrightarrow>
            fst (send_query self net q uuid st) = Inr None
            \<and> (\<exists>e. error_log (snd (send_query self net q uuid st)) = error_log st @ [e]
                   \<and> err_class (logged e) = APIError))"
  using assms
  by (auto simp: send_query_def post_def api_error_def log_error_def)

theorem send_query_failures_witness:
  "\<not> query_is_blank ''hi''
   \<and> (\<exists>e. fst (send_query client0 net_server_error ''hi'' None state0) = Inl e
          \<and> err_class e = APIError)
   \<and> fst (send_query client0 net_timeout ''hi'' None state0) = Inr None"
proof -
  have h: "\<not> query_is_blank ''hi''" by (rule not_blank_hi)
  show ?thesis
    using h
      send_query_failures [OF h, of net_server_error client0 None 500 None state0]
      send_query_failures [OF h, of net_timeout client0 None 500 None state0]
    by (simp add: net_server_error_def net_timeout_def)
qed

subsection \<open>The two response lists stay aligned\<close>

lemma send_query_session:
  "messages (snd (send_query self net q u st)) = messages st
   \<and> hybrid_responses (snd (send_query self net q u st)) = hybrid_responses st
   \<and> generic_responses (snd (send_query self net q u st)) = generic_responses st"
  by (auto simp: send_query_def post_def parse_answer_def unexpected_error_def log_error_def
      split: http_outcome.splits option.splits sum.splits bool.splits)

lemma send_query_result_indep:
  "fst (send_query self net q u st) = fst (send_query self net q u st')"
  by (auto simp: send_query_def post_def parse_answer_def unexpected_error_def log_error_def
      split: http_outcome.splits option.splits sum.splits bool.splits)

lemma send_generic_session:
  "messages (snd (send_generic_rag_query self net q st)) = messages st
   \<and> hybrid_responses (snd (send_generic_rag_query self net q st)) = hybrid_responses st
   \<and> generic_responses (snd (send_generic_rag_query self net q st)) = generic_responses st"
  by (auto simp: send_generic_rag_query_def post_def
      split: http_outcome.splits option.splits)

lemma send_generic_result_indep:
  "fst (send_generic_rag_query self net q st) = fst (send_generic_rag_query self net q st')"
  by (auto simp: send_generic_rag_query_def post_def
      split: http_outcome.splits option.splits)

lemma handle_blank:
  "query_is_blank inp \<Longrightarrow>
     handle_user_input self net inp st = st\<lparr>warnings := warnings st @ [''Please enter a valid question.'']\<rparr>"
  by (simp add: handle_user_input_def)

lemma handle_raise:
  assumes nb: "\<not> query_is_blank inp"
    and r: "fst (send_query self net (strip inp) (current_pdf_uuid st) st) = Inl e"
  shows "hybrid_responses (handle_user_input self net inp st) = hybrid_responses st
       \<and> generic_responses (handle_user_input self net inp st) = generic_responses st
       \<and> messages (handle_user_input self net inp st) = messages st @ [\<lparr>role = ''user'', content = strip inp\<rparr>]"
proof -
  let ?st1 = "st\<lparr>messages := messages st @ [\<lparr>role = ''user'', content = strip inp\<rparr>]\<rparr>"
  let ?sq = "send_query self net (strip inp) (current_pdf_uuid ?st1) ?st1"
  have f: "fst ?sq = Inl e"
    using r send_query_result_indep [of self net "strip inp" "current_pdf_uuid st" ?st1 st] by simp
  have s: "messages (snd ?sq) = messages ?st1 \<and> hybrid_responses (snd ?sq) = hybrid_responses ?st1
      \<and> generic_responses (snd ?sq) = generic_responses ?st1"
    by (rule send_query_session)
  obtain a b where ab: "?sq = (a, b)" by (cases ?sq)
  with f s show ?thesis using nb
    by (simp add: handle_user_input_def Let_def log_error_def)
qed

lemma handle_answer:
  assumes nb: "\<not> query_is_blank inp"
    and r: "fst (send_query self net (strip inp) (current_pdf_uuid st) st) = Inr h"
  shows "hybrid_responses (handle_user_input self net inp st) =
           hybrid_responses st @ [case h of None \<Rightarrow> hybrid_failure | Some a \<Rightarrow> a]
       \<and> generic_responses (handle_user_input self net inp st) =
           generic_responses st @ [case fst (send_generic_rag_query self net (strip inp) st) of
                                     None \<Rightarrow> generic_failure | Some g \<Rightarrow> g]
       \<and> messages (handle_user_input self net inp st) =
           messages st @ [\<lparr>role = ''user'', content = strip inp\<rparr>, dual_marker]"
proof -
  let ?st1 = "st\<lparr>messages := messages st @ [\<lparr>role = ''user'', content = strip inp\<rparr>]\<rparr>"
  let ?sq = "send_query self net (strip inp) (current_pdf_uuid ?st1) ?st1"
  have f: "fst ?sq = Inr h"
    using r send_query_result_indep [of self net "strip inp" "current_pdf_uuid st" ?st1 st] by simp
  have s: "messages (snd ?sq) = messages ?st1 \<and> hybrid_responses (snd ?sq) = hybrid_responses ?st1
      \<and> generic_responses (snd ?sq) = generic_responses ?st1"
    by (rule send_query_session)
  obtain a b where ab: "?sq = (a, b)" by (cases ?sq)
  let ?gq = "send_generic_rag_query self net (strip inp) b"
  have g: "fst ?gq = fst (send_generic_rag_query self net (strip inp) st)"
    by (rule send_generic_result_indep)
  have t: "messages (snd ?gq) = messages b \<and> hybrid_responses (snd ?gq) = hybrid_responses b
      \<and> generic_responses (snd ?gq) = generic_responses b"
    by (rule send_generic_session)
  obtain c d where cd: "?gq = (c, d)" by (cases ?gq)
  from ab f s cd g t nb show ?thesis
    by (simp add: handle_user_input_def Let_def)
qed

lemma dual_count_simps:
  "is_dual dual_marker" "\<not> is_dual \<lparr>role = ''user'', content = c\<rparr>"
  by (simp_all add: is_dual_def dual_marker_def)

lemma handle_aligned: "aligned st \<Longrightarrow> aligned (handle_user_input self net inp st)"
proof (cases "query_is_blank inp")
  case True
  assume "aligned st"
  with True show ?thesis by (simp add: handle_blank aligned_def dual_count_def)
next
  case False
  assume a: "aligned st"
  show ?thesis
  proof (cases "fst (send_query self net (strip inp) (current_pdf_uuid st) st)")
    case (Inl e)
    from handle_raise [OF False Inl] a show ?thesis
      by (simp add: aligned_def dual_count_def dual_count_simps)
  next
    case (Inr h)
    from handle_answer [OF False Inr] a show ?thesis
      by (simp add: aligned_def dual_count_def dual_count_simps)
  qed
qed

lemma upt_shift: "[k ..< k + Suc n] = k # [Suc k ..< Suc k + n]"
  using upt_conv_Cons [of k "k + Suc n"] by simp

lemma display_from_duals:
  "filter is_dual_bubble (display_from k gen hyb ms) =
     map (\<lambda>i. DualBubble (nth_opt gen i) (nth_opt hyb i)) [k ..< k + length (filter is_dual ms)]"
proof (induction ms arbitrary: k)
  case Nil
  show ?case by simp
next
  case (Cons m ms)
  show ?case
  proof (cases "is_dual m")
    case True
    then have d: "display_from k gen hyb (m # ms) =
        DualBubble (nth_opt gen k) (nth_opt hyb k) # display_from (Suc k) gen hyb ms"
      by (simp add: is_dual_def)
    from True have l: "length (filter is_dual (m # ms)) = Suc (length (filter is_dual ms))"
      by simp
    show ?thesis
      unfolding d l upt_shift using Cons.IH [of "Suc k"] by simp
  next
    case False
    then have "filter is_dual_bubble (display_from k gen hyb (m # ms)) =
       filter is_dual_bubble (display_from k gen hyb ms)"
      by (auto simp: is_dual_def)
    with False Cons.IH [of k] show ?thesis by simp
  qed
qed

lemma display_aligned:
  assumes "aligned st"
  shows "filter is_dual_bubble (display_chat_history st) =
     map (\<lambda>(g, h). DualBubble (Some g) (Some h)) (zip (generic_responses st) (hybrid_responses st))"
proof -
  from assms have l: "length (hybrid_responses st) = length (generic_responses st)"
    and d: "length (filter is_dual (messages st)) = length (generic_responses st)"
    by (simp_all add: aligned_def dual_count_def)
  have "map (\<lambda>i. DualBubble (nth_opt gen i) (nth_opt hyb i)) [0 ..< length gen] =
     map (\<lambda>(g, h). DualBubble (Some g) (Some h)) (zip gen hyb)"
    if "length hyb = length gen" for gen hyb :: "json list"
    using that by (intro nth_equalityI) (simp_all add: nth_opt_def)
  from this [OF l] show ?thesis
    by (simp add: display_chat_history_def display_from_duals d)
qed

lemma send_query_hi_ok:
  "fst (send_query client0 net_ok (strip ''hi'') (current_pdf_uuid state0) state0) = Inr (Some (JStr ''42''))"
  by (simp add: send_query_def not_blank_hi strip_hi post_def net_ok_def parse_answer_def)

lemma send_generic_hi_ok:
  "fst (send_generic_rag_query client0 net_ok (strip ''hi'') state0) = Some (JStr ''43'')"
  by (simp add: send_generic_rag_query_def not_blank_hi strip_hi post_def net_ok_def
      parse_generic_def client0_def truthy_def)

lemma send_query_hi_500:
  "fst (send_query client0 net_server_error (strip ''hi'') (current_pdf_uuid state0) state0)
     = Inl (api_error ''Server error occurred'' ''SERVER_ERROR'')"
  by (simp add: send_query_def not_blank_hi strip_hi post_def net_server_error_def)

text \<open>
  Claim C10, as the code has it. A request that the server answers with status 500 makes
  \<open>send_query\<close> raise; \<open>_handle_user_input\<close> catches the error after it has appended
  the user's message, and appends nothing to either response list.
\<close>

theorem handle_user_input_counterexample:
  "\<not> query_is_blank ''hi''
   \<and> hybrid_responses (handle_user_input client0 net_server_error ''hi'' state0) = []
   \<and> generic_responses (handle_user_input client0 net_server_error ''hi'' state0) = []
   \<and> messages (handle_user_input client0 net_server_error ''hi'' state0) =
       [\<lparr>role = ''user'', content = ''hi''\<rparr>]"
  using handle_raise [OF not_blank_hi send_query_hi_500]
  by (simp add: not_blank_hi state0_def strip_hi)

text \<open>
  Claim C10, amended. Every call of \<open>_handle_user_input\<close> keeps the two response lists
  and the \<open>dual_response\<close> messages aligned, and in an aligned state
  \<open>display_chat_history\<close> shows, at the k-th \<open>dual_response\<close> message, the k-th entries
  of both lists. When the input is not blank and \<open>send_query\<close> returns instead of
  raising, the call appends exactly one entry to each list (the fixed error string where
  a backend returned \<open>None\<close>), the user's message and one \<open>dual_response\<close> message.
  When the input is blank it appends nothing.
\<close>

theorem handle_user_input_alignment:
  "(aligned st \<longrightarrow>
      aligned (handle_user_input self net inp st)
      \<and> filter is_dual_bubble (display_chat_history st) =
          map (\<lambda>(g, h). DualBubble (Some g) (Some h))
            (zip (generic_responses st) (hybrid_responses st)))
   \<and> (\<not> query_is_blank inp
        \<and> fst (send_query self net (strip inp) (current_pdf_uuid st) st) = Inr h \<longrightarrow>
      hybrid_responses (handle_user_input self net inp st) =
        hybrid_responses st @ [case h of None \<Rightarrow> hybrid_failure | Some a \<Rightarrow> a]
      \<and> generic_responses (handle_user_input self net inp st) =
        generic_responses st @ [case fst (send_generic_rag_query self net (strip inp) st) of
                                  None \<Rightarrow> generic_failure | Some g \<Rightarrow> g]
      \<and> messages (handle_user_input self net inp st) =
        messages st @ [\<lparr>role = ''user'', content = strip inp\<rparr>, dual_marker])
   \<and> (query_is_blank inp \<longrightarrow>
      hybrid_responses (handle_user_input self net inp st) = hybrid_responses st
      \<and> generic_responses (handle_user_input self net inp st) = generic_responses st
      \<and> messages (handle_user_input self net inp st) = messages st)"
  using handle_aligned [of st self net inp] display_aligned [of st]
    handle_answer [of inp self net st h]
  by (simp add: handle_blank)

theorem handle_user_input_alignment_witness:
  "aligned state0
   \<and> aligned (handle_user_input client0 net_ok ''hi'' state0)
   \<and> hybrid_responses (handle_user_input client0 net_ok ''hi'' state0) = [JStr ''42'']
   \<and> generic_responses (handle_user_input client0 net_ok ''hi'' state0) = [JStr ''43'']
   \<and> messages (handle_user_input client0 net_ok ''hi'' state0) =
       [\<lparr>role = ''user'', content = ''hi''\<rparr>, dual_marker]
   \<and> messages (handle_user_input client0 net_ok ''  '' state0) = []"
proof -
  have a: "aligned state0" by (simp add: aligned_def dual_count_def state0_def)
  have b: "query_is_blank ''  ''" by (simp add: query_is_blank_iff py_isspace_def)
  have s: "hybrid_responses state0 = []" "generic_responses state0 = []" "messages state0 = []"
    by (simp_all add: state0_def)
  show ?thesis
    using a b not_blank_hi send_query_hi_ok send_generic_hi_ok
      handle_user_input_alignment [of state0 client0 net_ok "''hi''" "Some (JStr ''42'')"]
      handle_user_input_alignment [of state0 client0 net_ok "''  ''" "Some (JStr ''42'')"]
    by (simp add: s strip_hi)
qed

section \<open>Properties of the chunker and of the table schema engine\<close>

subsection \<open>Chunks are made of whole blocks\<close>

lemma close_chunk_concat: "concat (close_chunk buffer) = buffer"
  by (cases buffer) simp_all

lemma fill_chunks_concat: "concat (fill_chunks size_of max_size buffer bs) = buffer @ bs"
  by (induction bs arbitrary: buffer) (simp_all add: close_chunk_concat)

lemma close_chunk_nonempty: "[] \<notin> set (close_chunk buffer)"
  by (cases buffer) simp_all

lemma fill_chunks_nonempty: "[] \<notin> set (fill_chunks size_of max_size buffer bs)"
  by (induction bs arbitrary: buffer) (auto simp: close_chunk_nonempty)

lemma fill_chunks_bound:
  assumes "buffer = [] \<or> length buffer = 1 \<or> size_of (join_blocks buffer) \<le> max_size"
  shows "\<forall>g\<in>set (fill_chunks size_of max_size buffer bs).
           length g = 1 \<or> size_of (join_blocks g) \<le> max_size"
  using assms
proof (induction bs arbitrary: buffer)
  case Nil
  then show ?case by (cases buffer) auto
next
  case (Cons b bs)
  show ?case
  proof (cases "buffer \<noteq> [] \<and> max_size < size_of (join_blocks (buffer @ [b]))")
    case True
    have "\<forall>g\<in>set (fill_chunks size_of max_size [b] bs).
            length g = 1 \<or> size_of (join_blocks g) \<le> max_size"
      by (rule Cons.IH) simp
    with True Cons.prems show ?thesis by auto
  next
    case False
    have "\<forall>g\<in>set (fill_chunks size_of max_size (buffer @ [b]) bs).
            length g = 1 \<or> size_of (join_blocks g) \<le> max_size"
    proof (rule Cons.IH)
      from False show "buffer @ [b] = [] \<or> length (buffer @ [b]) = 1
          \<or> size_of (join_blocks (buffer @ [b])) \<le> max_size"
        by (cases "buffer = []") auto
    qed
    with False show ?thesis by auto
  qed
qed

lemma render_chunks_length: "length (render_chunks prior gs) = length gs"
  by (induction gs arbitrary: prior) simp_all

lemma render_chunks_suffix:
  "i < length gs \<Longrightarrow> suffix (join_blocks (gs ! i)) (render_chunks prior gs ! i)"
proof (induction gs arbitrary: prior i)
  case Nil
  then show ?case by simp
next
  case (Cons g gs)
  show ?case
  proof (cases i)
    case 0
    then show ?thesis by (simp add: chunk_text_def suffix_def)
  next
    case (Suc j)
    with Cons.prems Cons.IH [of j] show ?thesis by simp
  qed
qed


lemma render_chunks_nth:
  "i < length gs \<Longrightarrow>
     render_chunks prior gs ! i =
       chunk_text (prior @ take i (render_chunks prior gs)) (gs ! i)"
proof (induction gs arbitrary: prior i)
  case Nil
  then show ?case by simp
next
  case (Cons g gs)
  show ?case
  proof (cases i)
    case 0
    then show ?thesis by simp
  next
    case (Suc j)
    with Cons.prems Cons.IH [of j "prior @ [chunk_text prior g]"] show ?thesis by simp
  qed
qed

text \<open>
  Claim C4. Every chunk boundary is a Block boundary: the chunks' Blocks, concatenated in
  order, are the Blocks of the Document, no chunk is empty, and the text of each chunk is
  its prefix followed by the joined texts of its whole Blocks, so no paragraph and no
  bullet item is split across two chunks. A chunk larger than the maximum size consists
  of a single Block.
\<close>

theorem chunker_block_boundaries:
  "concat (group_blocks size_of max_size blocks) = blocks
   \<and> [] \<notin> set (group_blocks size_of max_size blocks)
   \<and> length (chunker size_of max_size blocks) = length (group_blocks size_of max_size blocks)
   \<and> (\<forall>i < length (group_blocks size_of max_size blocks).
         chunker size_of max_size blocks ! i =
           chunk_prefix (take i (chunker size_of max_size blocks))
             (group_blocks size_of max_size blocks ! i)
           @ join_blocks (group_blocks size_of max_size blocks ! i))
   \<and> (\<forall>g\<in>set (group_blocks size_of max_size blocks).
         length g = 1 \<or> size_of (join_blocks g) \<le> max_size)"
proof -
  have "\<forall>g\<in>set (fill_chunks size_of max_size [] blocks).
          length g = 1 \<or> size_of (join_blocks g) \<le> max_size"
    by (rule fill_chunks_bound) simp
  then show ?thesis
    using render_chunks_nth [of _ "group_blocks size_of max_size blocks" "[]"]
    by (simp add: group_blocks_def chunker_def fill_chunks_concat fill_chunks_nonempty
        render_chunks_length chunk_text_def)
qed

lemma sample_groups:
  "group_blocks length 22 sample_blocks =
     [take 2 sample_blocks, [sample_blocks ! 2], [sample_blocks ! 3]]"
  by (simp add: group_blocks_def sample_blocks_def separator_def newline_def)

theorem chunker_block_boundaries_witness:
  "concat (group_blocks length 22 sample_blocks) = sample_blocks
   \<and> length (chunker length 22 sample_blocks) = 3
   \<and> chunker length 22 sample_blocks ! 2 = ''- b''
   \<and> length ''- a very long bullet item'' = 25"
proof -
  have l: "2 < length (group_blocks length 22 sample_blocks)"
    by (simp add: sample_groups)
  have t: "take 2 (chunker length 22 sample_blocks) =
      [marker intro_heading @ newline @ newline @ ''INTRO'' @ newline @ newline @ ''One two. Three.'',
       ''- a very long bullet item'']"
    by (simp add: chunker_def sample_groups)
       (simp add: sample_blocks_def chunk_text_def chunk_prefix_def new_heading_def
          heading_rendered_def separator_def intro_heading_def marker_def)
  have p: "chunk_prefix (take 2 (chunker length 22 sample_blocks)) [sample_blocks ! 3] = []"
    unfolding t
    by (simp add: sample_blocks_def chunk_prefix_def new_heading_def heading_rendered_def
        intro_heading_def marker_def)
  from chunker_block_boundaries [of length 22 sample_blocks]
  have "concat (group_blocks length 22 sample_blocks) = sample_blocks"
    and "length (chunker length 22 sample_blocks) = length (group_blocks length 22 sample_blocks)"
    and "\<forall>i < length (group_blocks length 22 sample_blocks).
         chunker length 22 sample_blocks ! i =
           chunk_prefix (take i (chunker length 22 sample_blocks))
             (group_blocks length 22 sample_blocks ! i)
           @ join_blocks (group_blocks length 22 sample_blocks ! i)"
    by simp_all
  with l p show ?thesis
    by (simp add: sample_groups) (simp add: sample_blocks_def)
qed

subsection \<open>Schema identifiers\<close>

lemma fold_max_ge: "(m::nat) \<le> fold max xs m"
  by (induction xs arbitrary: m) (auto intro: order_trans [OF max.cobounded2])

lemma fold_max_mem: "(x::nat) \<in> set xs \<Longrightarrow> x \<le> fold max xs m"
proof (induction xs arbitrary: m)
  case Nil
  then show ?case by simp
next
  case (Cons y ys)
  show ?case
  proof (cases "x = y")
    case True
    have "max y m \<le> fold max ys (max y m)" by (rule fold_max_ge)
    with True show ?thesis by simp
  next
    case False
    with Cons show ?thesis by simp
  qed
qed

lemma new_identifier_fresh: "new_identifier catalog \<notin> set (map schema_id catalog)"
proof
  assume "new_identifier catalog \<in> set (map schema_id catalog)"
  then have "new_identifier catalog \<le> fold max (map schema_id catalog) 0"
    by (rule fold_max_mem)
  then show False by (simp add: new_identifier_def)
qed

lemma find_app:
  "find P (xs @ ys) = (case find P xs of None \<Rightarrow> find P ys | Some x \<Rightarrow> Some x)"
  by (induction xs) simp_all

lemma find_schema_append:
  "find_schema catalog names = Some s \<Longrightarrow> find_schema (catalog @ added) names = Some s"
  by (simp add: find_schema_def find_app)

text \<open>After a table has been resolved, its column names are in the catalogue under the identifier it got.\<close>

lemma resolve_schema_registered:
  assumes "resolve_schema catalog cols = (i, catalog1)"
  shows "\<exists>s. find_schema catalog1 (column_names cols) = Some s \<and> schema_id s = i"
proof (cases "find_schema catalog (column_names cols)")
  case None
  then have "find (\<lambda>s. column_names (column_spec s) = column_names cols) catalog = None"
    by (simp add: find_schema_def)
  with None assms show ?thesis
    by (auto simp: resolve_schema_def find_schema_def find_app)
next
  case (Some s)
  with assms show ?thesis by (auto simp: resolve_schema_def)
qed

lemma resolve_schema_extends:
  "resolve_schema catalog cols = (i, catalog1) \<Longrightarrow> \<exists>added. catalog1 = catalog @ added"
  by (auto simp: resolve_schema_def split: option.splits)

lemma resolve_tables_extends:
  "resolve_tables catalog tables = (is, catalog2) \<Longrightarrow> \<exists>added. catalog2 = catalog @ added"
proof (induction tables arbitrary: catalog "is" catalog2)
  case Nil
  then show ?case by simp
next
  case (Cons cols rest)
  obtain i catalog1 where r: "resolve_schema catalog cols = (i, catalog1)"
    by (cases "resolve_schema catalog cols")
  obtain js catalog3 where t: "resolve_tables catalog1 rest = (js, catalog3)"
    by (cases "resolve_tables catalog1 rest")
  from Cons.prems r t have c: "catalog2 = catalog3" by simp
  from resolve_schema_extends [OF r] Cons.IH [OF t] c show ?case by auto
qed

lemma resolve_tables_length:
  "resolve_tables catalog tables = (is, catalog2) \<Longrightarrow> length is = length tables"
proof (induction tables arbitrary: catalog "is" catalog2)
  case Nil
  then show ?case by simp
next
  case (Cons cols rest)
  obtain i catalog1 where r: "resolve_schema catalog cols = (i, catalog1)"
    by (cases "resolve_schema catalog cols")
  obtain js catalog3 where t: "resolve_tables catalog1 rest = (js, catalog3)"
    by (cases "resolve_tables catalog1 rest")
  from Cons.prems r t have c: "is = i # js" by simp
  from Cons.IH [OF t] c show ?case by simp
qed

text \<open>A table whose column names are already in the catalogue gets that schema's identifier,
  wherever it stands in the run.\<close>

lemma resolve_tables_known:
  assumes "find_schema catalog names = Some s"
    and "resolve_tables catalog tables = (is, catalog2)"
    and "j < length tables" and "column_names (tables ! j) = names"
  shows "is ! j = schema_id s"
  using assms
proof (induction tables arbitrary: catalog "is" catalog2 j)
  case Nil
  then show ?case by simp
next
  case (Cons cols rest)
  obtain i catalog1 where r: "resolve_schema catalog cols = (i, catalog1)"
    by (cases "resolve_schema catalog cols")
  obtain js catalog3 where t: "resolve_tables catalog1 rest = (js, catalog3)"
    by (cases "resolve_tables catalog1 rest")
  from Cons.prems(2) r t have c: "is = i # js" by simp
  show ?case
  proof (cases j)
    case 0
    with Cons.prems(4) have "column_names cols = names" by simp
    with Cons.prems(1) r have "i = schema_id s" by (auto simp: resolve_schema_def)
    with 0 c show ?thesis by simp
  next
    case (Suc k)
    from resolve_schema_extends [OF r] obtain added where "catalog1 = catalog @ added" ..
    with Cons.prems(1) have f: "find_schema catalog1 names = Some s"
      by (simp add: find_schema_append)
    from Suc Cons.prems(3,4) have "k < length rest" "column_names (rest ! k) = names" by simp_all
    from Cons.IH [OF f t this] Suc c show ?thesis by simp
  qed
qed

lemma resolve_tables_same:
  assumes "resolve_tables catalog tables = (is, catalog2)"
    and "j < k" and "k < length tables"
    and "column_names (tables ! j) = column_names (tables ! k)"
  shows "is ! j = is ! k"
  using assms
proof (induction tables arbitrary: catalog "is" catalog2 j k)
  case Nil
  then show ?case by simp
next
  case (Cons cols rest)
  obtain i catalog1 where r: "resolve_schema catalog cols = (i, catalog1)"
    by (cases "resolve_schema catalog cols")
  obtain js catalog3 where t: "resolve_tables catalog1 rest = (js, catalog3)"
    by (cases "resolve_tables catalog1 rest")
  from Cons.prems(1) r t have c: "is = i # js" by simp
  from Cons.prems(2) obtain k' where k: "k = Suc k'" by (cases k) auto
  show ?case
  proof (cases j)
    case 0
    from resolve_schema_registered [OF r] obtain s
      where s: "find_schema catalog1 (column_names cols) = Some s" "schema_id s = i" by auto
    from k Cons.prems(3) have "k' < length rest" by simp
    moreover from 0 k Cons.prems(4) have "column_names (rest ! k') = column_names cols" by simp
    ultimately have "js ! k' = schema_id s"
      using resolve_tables_known [OF s(1) t] by simp
    with 0 k c s(2) show ?thesis by simp
  next
    case (Suc j')
    with k Cons.prems have "j' < k'" "k' < length rest"
      "column_names (rest ! j') = column_names (rest ! k')" by simp_all
    from Cons.IH [OF t this] Suc k c show ?thesis by simp
  qed
qed

lemma resolve_tables_append:
  "resolve_tables catalog (xs @ ys) =
     (fst (resolve_tables catalog xs) @ fst (resolve_tables (snd (resolve_tables catalog xs)) ys),
      snd (resolve_tables (snd (resolve_tables catalog xs)) ys))"
  by (induction xs arbitrary: catalog) (simp_all add: split_beta Let_def)

lemma resolve_schema_id_in:
  assumes "resolve_schema catalog cols = (i, catalog1)"
  shows "i \<in> set (map schema_id catalog1)"
proof -
  from resolve_schema_registered [OF assms] obtain s
    where "find_schema catalog1 (column_names cols) = Some s" "schema_id s = i" by auto
  then have "s \<in> set catalog1"
    by (auto simp: find_schema_def find_Some_iff)
  with \<open>schema_id s = i\<close> show ?thesis by auto
qed

lemma resolve_tables_ids_in:
  "resolve_tables catalog tables = (is, catalog2) \<Longrightarrow> set is \<subseteq> set (map schema_id catalog2)"
proof (induction tables arbitrary: catalog "is" catalog2)
  case Nil
  then show ?case by simp
next
  case (Cons cols rest)
  obtain i catalog1 where r: "resolve_schema catalog cols = (i, catalog1)"
    by (cases "resolve_schema catalog cols")
  obtain js catalog3 where t: "resolve_tables catalog1 rest = (js, catalog3)"
    by (cases "resolve_tables catalog1 rest")
  from Cons.prems r t have c: "is = i # js" "catalog2 = catalog3" by simp_all
  from resolve_tables_extends [OF t] obtain added where "catalog3 = catalog1 @ added" ..
  with resolve_schema_id_in [OF r] have "i \<in> set (map schema_id catalog3)" by auto
  with Cons.IH [OF t] c show ?case by simp
qed

lemma resolve_tables_new:
  assumes run: "resolve_tables catalog tables = (is, catalog2)"
    and k: "k < length tables"
    and new: "find_schema (catalog_before catalog tables k) (column_names (tables ! k)) = None"
  shows "is ! k \<notin> set (map schema_id (catalog_before catalog tables k))
       \<and> (\<forall>j<k. is ! j \<noteq> is ! k)
       \<and> \<lparr>schema_id = is ! k, column_spec = tables ! k\<rparr> \<in> set catalog2"
proof -
  let ?pre = "resolve_tables catalog (take k tables)"
  let ?c = "catalog_before catalog tables k"
  let ?step = "resolve_schema ?c (tables ! k)"
  let ?post = "resolve_tables (snd ?step) (drop (Suc k) tables)"
  have c: "snd ?pre = ?c" by (simp add: catalog_before_def)
  from k have split: "tables = take k tables @ (tables ! k # drop (Suc k) tables)"
    by (simp add: id_take_nth_drop [symmetric])
  have "resolve_tables catalog tables =
      (fst ?pre @ fst ?step # fst ?post, snd ?post)"
    by (subst split, subst resolve_tables_append) (simp add: c split_beta Let_def)
  with run have is_eq: "is = fst ?pre @ fst ?step # fst ?post" and c2: "catalog2 = snd ?post"
    by simp_all
  have lp: "length (fst ?pre) = k"
    using resolve_tables_length [of catalog "take k tables" "fst ?pre" "snd ?pre"] k by simp
  from is_eq lp have ik: "is ! k = fst ?step" by (simp add: nth_append)
  from new have step: "?step = (new_identifier ?c,
      ?c @ [\<lparr>schema_id = new_identifier ?c, column_spec = tables ! k\<rparr>])"
    by (simp add: resolve_schema_def)
  have fresh: "is ! k \<notin> set (map schema_id ?c)"
    using new_identifier_fresh [of ?c] ik step by simp
  have early: "\<forall>j<k. is ! j \<noteq> is ! k"
  proof (intro allI impI)
    fix j assume "j < k"
    with is_eq lp have "is ! j = fst ?pre ! j" by (simp add: nth_append)
    with \<open>j < k\<close> lp have "is ! j \<in> set (fst ?pre)" by (metis nth_mem)
    moreover have "set (fst ?pre) \<subseteq> set (map schema_id (snd ?pre))"
      by (rule resolve_tables_ids_in) simp
    ultimately have "is ! j \<in> set (map schema_id ?c)" using c by auto
    with fresh show "is ! j \<noteq> is ! k" by auto
  qed
  obtain added where "snd ?post = snd ?step @ added"
    using resolve_tables_extends [of "snd ?step" "drop (Suc k) tables" "fst ?post" "snd ?post"]
    by auto
  with step ik c2 have "\<lparr>schema_id = is ! k, column_spec = tables ! k\<rparr> \<in> set catalog2"
    by simp
  with fresh early show ?thesis by blast
qed

text \<open>
  Claim C6. In one pipeline run, two tables with the same ordered column names are
  resolved to the same schema identifier. A table whose ordered column names match no
  schema seen before it is registered as a new schema, under an identifier that no
  schema of the catalogue and no earlier table of the run has.
\<close>

theorem schema_resolution:
  assumes "resolve_tables catalog tables = (ids, catalog2)"
  shows "(\<forall>j k. j < length tables \<and> k < length tables
            \<and> column_names (tables ! j) = column_names (tables ! k) \<longrightarrow> ids ! j = ids ! k)
       \<and> (\<forall>k. k < length tables
            \<and> find_schema (catalog_before catalog tables k) (column_names (tables ! k)) = None \<longrightarrow>
              ids ! k \<notin> set (map schema_id (catalog_before catalog tables k))
              \<and> (\<forall>j<k. ids ! j \<noteq> ids ! k)
              \<and> \<lparr>schema_id = ids ! k, column_spec = tables ! k\<rparr> \<in> set catalog2)"
proof
  show "\<forall>j k. j < length tables \<and> k < length tables
            \<and> column_names (tables ! j) = column_names (tables ! k) \<longrightarrow> ids ! j = ids ! k"
  proof (intro allI impI)
    fix j k
    assume h: "j < length tables \<and> k < length tables
      \<and> column_names (tables ! j) = column_names (tables ! k)"
    consider "j < k" | "j = k" | "k < j" by arith
    then show "ids ! j = ids ! k"
    proof cases
      case 1
      with h resolve_tables_same [OF assms, of j k] show ?thesis by simp
    next
      case 2
      then show ?thesis by simp
    next
      case 3
      with h resolve_tables_same [OF assms, of k j] show ?thesis by simp
    qed
  qed
next
  show "\<forall>k. k < length tables
            \<and> find_schema (catalog_before catalog tables k) (column_names (tables ! k)) = None \<longrightarrow>
              ids ! k \<notin> set (map schema_id (catalog_before catalog tables k))
              \<and> (\<forall>j<k. ids ! j \<noteq> ids ! k)
              \<and> \<lparr>schema_id = ids ! k, column_spec = tables ! k\<rparr> \<in> set catalog2"
    using resolve_tables_new [OF assms] by blast
qed

lemma sample_run:
  "resolve_tables sample_catalog sample_tables =
     ([8, 7, 8],
      [\<lparr>schema_id = 7, column_spec = [(''name'', Text), (''goals'', Numeric)]\<rparr>,
       \<lparr>schema_id = 8, column_spec = [(''year'', Date), (''host'', Text)]\<rparr>])"
  by (simp add: sample_catalog_def sample_tables_def resolve_schema_def find_schema_def
      column_names_def new_identifier_def)

lemma sample_new:
  "find_schema (catalog_before sample_catalog sample_tables 0) (column_names (sample_tables ! 0)) = None"
  by (simp add: catalog_before_def sample_catalog_def sample_tables_def find_schema_def
      column_names_def)

theorem schema_resolution_witness:
  "resolve_tables sample_catalog sample_tables =
     ([8, 7, 8],
      [\<lparr>schema_id = 7, column_spec = [(''name'', Text), (''goals'', Numeric)]\<rparr>,
       \<lparr>schema_id = 8, column_spec = [(''year'', Date), (''host'', Text)]\<rparr>])
   \<and> column_names (sample_tables ! 0) = column_names (sample_tables ! 2)
   \<and> [8, 7, 8 :: nat] ! 0 = [8, 7, 8] ! 2
   \<and> (8::nat) \<notin> set (map schema_id (catalog_before sample_catalog sample_tables 0))"
proof -
  have n: "column_names (sample_tables ! 0) = column_names (sample_tables ! 2)"
    by (simp add: sample_tables_def column_names_def)
  have l: "length sample_tables = 3" by (simp add: sample_tables_def)
  have i: "(0::nat) < length sample_tables \<and> 2 < length sample_tables
      \<and> column_names (sample_tables ! 0) = column_names (sample_tables ! 2)"
    using n l by simp
  have k: "0 < length sample_tables
      \<and> find_schema (catalog_before sample_catalog sample_tables 0)
            (column_names (sample_tables ! 0)) = None"
    using l sample_new by simp
  from schema_resolution [OF sample_run, THEN conjunct1, rule_format, OF i]
    schema_resolution [OF sample_run, THEN conjunct2, rule_format, OF k]
    n sample_run
  show ?thesis by simp
qed

end
